theory Spec2Isabelle
  imports Main "HOL-Library.Word"
begin

section \<open>Image capture GUI: numbering and saving of captured frames\<close>

text \<open>
  A shallow embedding of \<^verbatim>\<open>lab2_image_capture_gui.py\<close>: the class
  \<^verbatim>\<open>ImageCaptureFrame\<close> with its methods \<^verbatim>\<open>get_current_count\<close>,
  \<^verbatim>\<open>video_loop\<close> and \<^verbatim>\<open>save_image\<close>. The camera and the file system are
  outside the program, so each outcome they can give is an argument of the model
  (what \<^verbatim>\<open>vs.read()\<close> returned, whether \<^verbatim>\<open>cv2.imwrite\<close> could write), and
  the content of the output directory is a field of the state that the methods update.
  File names are strings of 8-bit characters. Limits of the process (open file handles,
  memory) are not part of the model.
\<close>

subsection \<open>Frames and the files of the output directory\<close>

text \<open>
  A frame is the array \<^verbatim>\<open>vs.read()\<close> returns: rows of pixels, three 8-bit
  channels each (blue, green, red in OpenCV's order).
\<close>

type_synonym pixel = "8 word \<times> 8 word \<times> 8 word"
type_synonym frame = "pixel list list"

text \<open>
  What a directory entry holds, as far as \<^verbatim>\<open>Image.open\<close> can tell: data that
  decodes to an image, any other data, or a subdirectory. An entry written by
  \<^verbatim>\<open>cv2.imwrite\<close> is represented by the frame that was encoded into it.
\<close>

datatype content = ImageData frame | OtherData | Subdirectory

text \<open>
  The output directory: its entries by name, in the order \<^verbatim>\<open>os.listdir\<close>
  gives them. Names are unique in a directory (\<open>distinct (map fst d)\<close>).
\<close>

type_synonym directory = "(string \<times> content) list"

datatype error = UnidentifiedImageError | IsADirectoryError | ValueError

subsection \<open>Python's string functions\<close>

text \<open>\<^verbatim>\<open>str.lower\<close>, on the letters A to Z.\<close>

definition lower_char :: "char \<Rightarrow> char" where
  "lower_char c =
     (let n = (of_char c :: nat) in if 65 \<le> n \<and> n \<le> 90 then char_of (n + 32) else c)"

definition lower :: "string \<Rightarrow> string" where
  "lower s = map lower_char s"

text \<open>\<^verbatim>\<open>str.rfind\<close> of one character: the highest index where it occurs, or -1.\<close>

primrec rfind_from :: "char \<Rightarrow> string \<Rightarrow> int \<Rightarrow> int \<Rightarrow> int" where
  "rfind_from c [] i found = found"
| "rfind_from c (x # xs) i found = rfind_from c xs (i + 1) (if x = c then i else found)"

definition rfind :: "string \<Rightarrow> char \<Rightarrow> int" where
  "rfind p c = rfind_from c p 0 (-1)"

text \<open>
  \<^verbatim>\<open>os.path.splitext\<close> (\<^verbatim>\<open>genericpath._splitext\<close> with separator \<^verbatim>\<open>/\<close>):
  the extension starts at the last dot of the last path component, unless only dots
  precede it there. The loop that skips the leading dots is \<open>skip_dots\<close>; it returns
  whether a character other than a dot was found before \<open>dotIndex\<close>.
\<close>

function skip_dots :: "string \<Rightarrow> nat \<Rightarrow> nat \<Rightarrow> bool" where
  "skip_dots p filenameIndex dotIndex =
     (if filenameIndex < dotIndex then
        (if take 1 (drop filenameIndex p) \<noteq> ''.'' then True
         else skip_dots p (filenameIndex + 1) dotIndex)
      else False)"
  by pat_completeness auto
termination
  by (relation "measure (\<lambda>(p, filenameIndex, dotIndex). dotIndex - filenameIndex)") auto

declare skip_dots.simps [simp del]

definition splitext :: "string \<Rightarrow> string \<times> string" where
  "splitext p =
     (let sepIndex = rfind p (CHR ''/'');
          dotIndex = rfind p (CHR ''.'')
      in if dotIndex > sepIndex \<and> skip_dots p (nat (sepIndex + 1)) (nat dotIndex)
         then (take (nat dotIndex) p, drop (nat dotIndex) p)
         else (p, []))"

text \<open>\<^verbatim>\<open>os.path.join\<close> of two components.\<close>

definition path_join :: "string \<Rightarrow> string \<Rightarrow> string" where
  "path_join a b =
     (if take 1 b = ''/'' then b
      else if a = [] \<or> take 1 (rev a) = ''/'' then a @ b
      else a @ ''/'' @ b)"

text \<open>\<^verbatim>\<open>str\<close> of an integer: its decimal digits, after a minus sign when negative.\<close>

definition digit_char :: "nat \<Rightarrow> char" where
  "digit_char d = char_of (48 + d)"

function str_nat :: "nat \<Rightarrow> string" where
  "str_nat n = (if n < 10 then [digit_char n] else str_nat (n div 10) @ [digit_char (n mod 10)])"
  by pat_completeness auto
termination
  by (relation "measure (\<lambda>n. n)") auto

declare str_nat.simps [simp del]

definition str :: "int \<Rightarrow> string" where
  "str i = (if i < 0 then CHR ''-'' # str_nat (nat (- i)) else str_nat (nat i))"

subsection \<open>Pillow and OpenCV operations on images\<close>

text \<open>\<^verbatim>\<open>Image.open\<close>: raises unless the entry decodes to an image.\<close>

fun Image_open :: "content \<Rightarrow> error + frame" where
  "Image_open (ImageData f) = Inr f"
| "Image_open OtherData = Inl UnidentifiedImageError"
| "Image_open Subdirectory = Inl IsADirectoryError"

text \<open>\<^verbatim>\<open>cv2.cvtColor(frame, cv2.COLOR_BGR2RGB)\<close>: the first and third channel change places.\<close>

definition cvtColor_BGR2RGB :: "frame \<Rightarrow> frame" where
  "cvtColor_BGR2RGB f = map (map (\<lambda>(b, g, r). (r, g, b))) f"

definition width :: "frame \<Rightarrow> nat" where
  "width f = (case f of [] \<Rightarrow> 0 | row # _ \<Rightarrow> length row)"

text \<open>
  \<^verbatim>\<open>ImageOps.crop(image, (left, top, right, bottom))\<close> is
  \<^verbatim>\<open>image.crop((left, top, width - right, height - bottom))\<close>, and
  \<^verbatim>\<open>Image.crop\<close> raises \<^verbatim>\<open>ValueError\<close> for a box whose right edge is left of
  its left edge, or whose lower edge is above its upper edge.
\<close>

definition ImageOps_crop :: "frame \<Rightarrow> nat \<times> nat \<times> nat \<times> nat \<Rightarrow> error + frame" where
  "ImageOps_crop f border =
     (case border of (b_left, b_top, b_right, b_bottom) \<Rightarrow>
        if int (width f) - int b_right < int b_left then Inl ValueError
        else if int (length f) - int b_bottom < int b_top then Inl ValueError
        else Inr (map (\<lambda>row. take (width f - b_right - b_left) (drop b_left row))
                    (take (length f - b_bottom - b_top) (drop b_top f))))"

text \<open>\<^verbatim>\<open>ImageOps.mirror\<close>: every row is reversed.\<close>

definition ImageOps_mirror :: "frame \<Rightarrow> frame" where
  "ImageOps_mirror f = map rev f"

text \<open>
  \<^verbatim>\<open>cv2.imwrite(path, frame)\<close> when it can write: the entry of that name is
  created, or replaced where it exists.
\<close>

fun imwrite :: "string \<Rightarrow> frame \<Rightarrow> directory \<Rightarrow> directory" where
  "imwrite name f [] = [(name, ImageData f)]"
| "imwrite name f ((n, c) # rest) =
     (if n = name then (n, ImageData f) # rest else (n, c) # imwrite name f rest)"

text \<open>Removing an entry, as a user deleting a file does.\<close>

definition delete_file :: "string \<Rightarrow> directory \<Rightarrow> directory" where
  "delete_file name d = filter (\<lambda>(n, c). n \<noteq> name) d"

subsection \<open>The capture session\<close>

text \<open>
  The attributes of \<^verbatim>\<open>ImageCaptureFrame\<close> the methods use, with the two things
  they act on outside the object: the entries of \<^verbatim>\<open>output_path\<close> and the lines
  printed so far. \<open>panel\<close> is the image the label shows.
\<close>

record session =
  output_path :: string
  files :: directory
  count :: int
  current_image :: "frame option"
  panel :: "frame option"
  console :: "string list"

definition print :: "string \<Rightarrow> session \<Rightarrow> session" where
  "print line s = s\<lparr>console := console s @ [line]\<rparr>"

definition valid_images :: "string list" where
  "valid_images = [''.jpg'']"

text \<open>
  The loop of \<^verbatim>\<open>get_current_count\<close> over \<^verbatim>\<open>os.listdir(folder)\<close>: an entry
  whose lower-cased extension is not in \<open>valid_images\<close> is skipped, any other entry is
  opened and appended to \<open>imgs\<close>. \<^verbatim>\<open>Image.open\<close> is not guarded, so its exception
  ends the loop and the method.
\<close>

fun count_loop :: "directory \<Rightarrow> frame list \<Rightarrow> error + frame list" where
  "count_loop [] imgs = Inr imgs"
| "count_loop ((i, c) # rest) imgs =
     (let ext = snd (splitext i) in
      if lower ext \<notin> set valid_images then count_loop rest imgs
      else (case Image_open c of
              Inl e \<Rightarrow> Inl e
            | Inr im \<Rightarrow> count_loop rest (imgs @ [im])))"

definition get_current_count :: "directory \<Rightarrow> error + int" where
  "get_current_count folder =
     (case count_loop folder [] of
        Inl e \<Rightarrow> Inl e
      | Inr imgs \<Rightarrow> Inr (int (length imgs)))"

text \<open>
  \<^verbatim>\<open>video_loop\<close>, one run, given what \<^verbatim>\<open>vs.read()\<close> returned (\<open>None\<close> when
  \<open>ok\<close> is false). The re-arming by \<^verbatim>\<open>after(30, ...)\<close> is the caller's.
\<close>

definition video_loop :: "frame option \<Rightarrow> session \<Rightarrow> (error + unit) \<times> session" where
  "video_loop rd s =
     (case rd of
        None \<Rightarrow> (Inr (), s)
      | Some frame \<Rightarrow>
          (let cv2image = cvtColor_BGR2RGB frame;
               s1 = s\<lparr>current_image := Some cv2image\<rparr>
           in case ImageOps_crop cv2image (200, 0, 200, 0) of
                Inl e \<Rightarrow> (Inl e, s1)
              | Inr cropped \<Rightarrow>
                  (let s2 = s1\<lparr>current_image := Some cropped\<rparr>;
                       s3 = s2\<lparr>current_image := Some (ImageOps_mirror cropped)\<rparr>
                   in (Inr (), s3\<lparr>panel := current_image s3\<rparr>))))"

text \<open>
  \<^verbatim>\<open>save_image\<close>, given what \<^verbatim>\<open>vs.read()\<close> returned and whether
  \<^verbatim>\<open>cv2.imwrite\<close> can write the file (its return value \<open>saved\<close>). An exception of
  \<^verbatim>\<open>get_current_count\<close> leaves the method before \<open>count\<close> is assigned.
\<close>

definition save_image :: "frame option \<Rightarrow> bool \<Rightarrow> session \<Rightarrow> (error + unit) \<times> session" where
  "save_image rd writable s =
     (let current = ''00000000'' in
      case get_current_count (files s) of
        Inl e \<Rightarrow> (Inl e, s)
      | Inr n \<Rightarrow>
          (let s1 = s\<lparr>count := n + 1\<rparr>;
               new = drop (length (str (count s1))) current @ str (count s1);
               filename = new @ ''.jpg'';
               path = path_join (output_path s1) filename;
               s2 = print (''new save: '' @ path) s1
           in case rd of
                None \<Rightarrow> (Inr (), s2)
              | Some frame \<Rightarrow>
                  (let saved = writable;
                       s3 = (if saved then s2\<lparr>files := imwrite filename frame (files s2)\<rparr> else s2)
                   in (Inr (), print ''save successful.'' s3))))"

text \<open>
  The number of the next capture, \<^verbatim>\<open>self.get_current_count(...) + 1\<close>, as
  \<^verbatim>\<open>__init__\<close> and \<^verbatim>\<open>save_image\<close> compute it.
\<close>

definition nextNumber :: "directory \<Rightarrow> error + int" where
  "nextNumber folder =
     (case get_current_count folder of Inl e \<Rightarrow> Inl e | Inr n \<Rightarrow> Inr (n + 1))"

text \<open>The name \<^verbatim>\<open>save_image\<close> builds from the value of \<open>count\<close>.\<close>

definition basename :: "int \<Rightarrow> string" where
  "basename n = drop (length (str n)) ''00000000'' @ str n"

definition filename_of :: "int \<Rightarrow> string" where
  "filename_of n = basename n @ ''.jpg''"

subsection \<open>Vocabulary of the properties\<close>

text \<open>An entry name that \<^verbatim>\<open>get_current_count\<close> does not skip.\<close>

definition is_valid_image_name :: "string \<Rightarrow> bool" where
  "is_valid_image_name i = (lower (snd (splitext i)) \<in> set valid_images)"

text \<open>An entry that \<^verbatim>\<open>Image.open\<close> opens.\<close>

definition openable :: "content \<Rightarrow> bool" where
  "openable c = (case Image_open c of Inl e \<Rightarrow> False | Inr im \<Rightarrow> True)"


text \<open>What the preview shows of a frame: channels swapped, 200 columns cut on each side, mirrored.\<close>

definition displayed :: "frame \<Rightarrow> frame" where
  "displayed g =
     map (\<lambda>row. rev (take (width g - 400) (drop 200 (map (\<lambda>(b, g, r). (r, g, b)) row)))) g"

text \<open>A session with an empty output directory, for the concrete runs below.\<close>

definition session0 :: session where
  "session0 = \<lparr>output_path = ''./'', files = [], count = 7, current_image = None,
                panel = None, console = []\<rparr>"


definition folder_two :: directory where
  "folder_two = [(''00000001.jpg'', ImageData []), (''00000002.jpg'', ImageData [])]"

definition folder_bad :: directory where
  "folder_bad = [(''00000001.jpg'', ImageData []), (''00000002.jpg'', OtherData)]"

definition frame_wide :: frame where
  "frame_wide = [replicate 200 (0, 0, 0) @ [(1, 2, 3), (4, 5, 6)] @ replicate 200 (9, 9, 9)]"

section \<open>Properties\<close>

subsection \<open>The counting loop\<close>

lemma count_loop_all_open:
  "\<forall>(i, c) \<in> set d. is_valid_image_name i \<longrightarrow> openable c \<Longrightarrow>
   \<exists>xs. count_loop d imgs = Inr xs \<and>
        length xs = length imgs + length (filter (\<lambda>(i, c). is_valid_image_name i) d)"
proof (induction d arbitrary: imgs)
  case Nil
  show ?case by simp
next
  case (Cons e d)
  obtain i c where e: "e = (i, c)" by (cases e)
  from Cons.prems have rest: "\<forall>(i, c) \<in> set d. is_valid_image_name i \<longrightarrow> openable c"
    by simp
  show ?case
  proof (cases "is_valid_image_name i")
    case False
    with Cons.IH [OF rest, of imgs] e show ?thesis
      by (simp add: is_valid_image_name_def)
  next
    case True
    with Cons.prems e have "openable c" by simp
    then obtain im where im: "Image_open c = Inr im"
      by (auto simp: openable_def split: sum.splits)
    from Cons.IH [OF rest, of "imgs @ [im]"] True e im show ?thesis
      by (simp add: is_valid_image_name_def)
  qed
qed

lemma count_loop_unopenable:
  "(i, c) \<in> set d \<Longrightarrow> is_valid_image_name i \<Longrightarrow> \<not> openable c \<Longrightarrow>
   \<exists>e. count_loop d imgs = Inl e"
proof (induction d arbitrary: imgs)
  case Nil
  then show ?case by simp
next
  case (Cons x d)
  obtain j b where x: "x = (j, b)" by (cases x)
  show ?case
  proof (cases "(i, c) = (j, b)")
    case True
    with Cons.prems x show ?thesis
      by (auto simp: is_valid_image_name_def openable_def split: sum.splits)
  next
    case False
    with Cons.prems x have "(i, c) \<in> set d" by auto
    from Cons.IH [OF this Cons.prems(2,3)] x show ?thesis
      by (auto simp: Let_def split: sum.splits)
  qed
qed

lemma get_current_count_all_open:
  assumes "\<forall>(i, c) \<in> set d. is_valid_image_name i \<longrightarrow> openable c"
  shows "get_current_count d = Inr (int (length (filter (\<lambda>(i, c). is_valid_image_name i) d)))"
proof -
  from count_loop_all_open [OF assms, of "[]"] obtain xs
    where "count_loop d [] = Inr xs"
      and "length xs = length (filter (\<lambda>(i, c). is_valid_image_name i) d)"
    by auto
  then show ?thesis by (simp add: get_current_count_def)
qed

lemma get_current_count_unopenable:
  assumes "(i, c) \<in> set d" and "is_valid_image_name i" and "\<not> openable c"
  shows "\<exists>e. get_current_count d = Inl e"
proof -
  from count_loop_unopenable [OF assms, of "[]"] obtain e where "count_loop d [] = Inl e" ..
  then show ?thesis by (simp add: get_current_count_def)
qed

lemma get_current_count_returns:
  assumes "get_current_count d = Inr k"
  shows "\<forall>(i, c) \<in> set d. is_valid_image_name i \<longrightarrow> openable c"
proof (rule ccontr)
  assume "\<not> ?thesis"
  then obtain i c where "(i, c) \<in> set d" "is_valid_image_name i" "\<not> openable c" by auto
  from get_current_count_unopenable [OF this] assms show False by auto
qed

subsection \<open>What one run of \<open>save_image\<close> does\<close>

lemma save_image_ok:
  "get_current_count (files s) = Inr n \<Longrightarrow>
   save_image (Some frame) True s =
     (Inr (), s\<lparr>count := n + 1,
                 console := console s @
                   [''new save: '' @ path_join (output_path s) (filename_of (n + 1)),
                    ''save successful.''],
                 files := imwrite (filename_of (n + 1)) frame (files s)\<rparr>)"
  by (simp add: save_image_def print_def filename_of_def basename_def Let_def)

lemma save_image_write_failed:
  "get_current_count (files s) = Inr n \<Longrightarrow>
   save_image (Some frame) False s =
     (Inr (), s\<lparr>count := n + 1,
                 console := console s @
                   [''new save: '' @ path_join (output_path s) (filename_of (n + 1)),
                    ''save successful.'']\<rparr>)"
  by (simp add: save_image_def print_def filename_of_def basename_def Let_def)

lemma save_image_read_failed:
  "get_current_count (files s) = Inr n \<Longrightarrow>
   save_image None w s =
     (Inr (), s\<lparr>count := n + 1,
                 console := console s @
                   [''new save: '' @ path_join (output_path s) (filename_of (n + 1))]\<rparr>)"
  by (simp add: save_image_def print_def filename_of_def basename_def Let_def)

lemma save_image_raises:
  "get_current_count (files s) = Inl e \<Longrightarrow> save_image rd w s = (Inl e, s)"
  by (simp add: save_image_def)

subsection \<open>Concrete names and counts\<close>

lemma str_1: "str 1 = ''1''" by code_simp
lemma str_2: "str 2 = ''2''" by code_simp
lemma str_3: "str 3 = ''3''" by code_simp

lemma filename_1: "filename_of 1 = ''00000001.jpg''"
  by (simp add: filename_of_def basename_def str_1)
lemma filename_2: "filename_of 2 = ''00000002.jpg''"
  by (simp add: filename_of_def basename_def str_2)
lemma filename_3: "filename_of 3 = ''00000003.jpg''"
  by (simp add: filename_of_def basename_def str_3)

lemma ext_1: "lower (snd (splitext ''00000001.jpg'')) = ''.jpg''" by code_simp
lemma ext_2: "lower (snd (splitext ''00000002.jpg'')) = ''.jpg''" by code_simp
lemma ext_3: "lower (snd (splitext ''00000003.jpg'')) = ''.jpg''" by code_simp

lemma count_0: "get_current_count [] = Inr 0"
  by (simp add: get_current_count_def)

lemma count_1: "get_current_count [(''00000001.jpg'', ImageData f1)] = Inr 1"
  by (simp add: get_current_count_def ext_1 valid_images_def)

lemma count_2:
  "get_current_count [(''00000001.jpg'', ImageData f1), (''00000002.jpg'', ImageData f2)] = Inr 2"
  by (simp add: get_current_count_def ext_1 ext_2 valid_images_def)

subsection \<open>Numbering from an empty directory\<close>

text \<open>
  C1. In an empty output directory the next number is 1 and the first save writes
  \<^verbatim>\<open>00000001.jpg\<close>; after that save the next number is 2; and three saves in a row,
  each with a frame read and a file written, leave exactly the entries
  \<^verbatim>\<open>00000001.jpg\<close>, \<^verbatim>\<open>00000002.jpg\<close> and \<^verbatim>\<open>00000003.jpg\<close>, holding the three
  frames in that order. This holds for every session and all frames.
\<close>

theorem three_saves_from_empty_directory:
  "(let s0 = s\<lparr>files := []\<rparr>;
        s1 = snd (save_image (Some f1) True s0);
        s2 = snd (save_image (Some f2) True s1);
        s3 = snd (save_image (Some f3) True s2)
    in nextNumber (files s0) = Inr 1 \<and>
       files s1 = [(''00000001.jpg'', ImageData f1)] \<and>
       nextNumber (files s1) = Inr 2 \<and>
       files s3 = [(''00000001.jpg'', ImageData f1), (''00000002.jpg'', ImageData f2),
                   (''00000003.jpg'', ImageData f3)])"
proof -
  define s0 where "s0 = s\<lparr>files := []\<rparr>"
  define s1 where "s1 = snd (save_image (Some f1) True s0)"
  define s2 where "s2 = snd (save_image (Some f2) True s1)"
  define s3 where "s3 = snd (save_image (Some f3) True s2)"
  have c0: "get_current_count (files s0) = Inr 0"
    by (simp add: s0_def count_0)
  have d1: "files s1 = [(''00000001.jpg'', ImageData f1)]"
    unfolding s1_def using save_image_ok [OF c0, of f1] by (simp add: filename_1 s0_def)
  have c1: "get_current_count (files s1) = Inr 1"
    by (simp add: d1 count_1)
  have d2: "files s2 = [(''00000001.jpg'', ImageData f1), (''00000002.jpg'', ImageData f2)]"
    unfolding s2_def using save_image_ok [OF c1, of f2] by (simp add: filename_2 d1)
  have c2: "get_current_count (files s2) = Inr 2"
    by (simp add: d2 count_2)
  have d3: "files s3 = [(''00000001.jpg'', ImageData f1), (''00000002.jpg'', ImageData f2),
                        (''00000003.jpg'', ImageData f3)]"
    unfolding s3_def using save_image_ok [OF c2, of f3] by (simp add: filename_3 d2)
  have "nextNumber (files s0) = Inr 1 \<and> files s1 = [(''00000001.jpg'', ImageData f1)] \<and>
        nextNumber (files s1) = Inr 2 \<and>
        files s3 = [(''00000001.jpg'', ImageData f1), (''00000002.jpg'', ImageData f2),
                    (''00000003.jpg'', ImageData f3)]"
    using c0 c1 d1 d3 by (simp add: nextNumber_def)
  then show ?thesis
    unfolding Let_def s0_def s1_def s2_def s3_def .
qed

subsection \<open>Decimal digits and the names of saved files\<close>

lemma digit_chars:
  "digit_char 0 = CHR ''0''" "digit_char 1 = CHR ''1''" "digit_char 2 = CHR ''2''"
  "digit_char 3 = CHR ''3''" "digit_char 4 = CHR ''4''" "digit_char 5 = CHR ''5''"
  "digit_char 6 = CHR ''6''" "digit_char 7 = CHR ''7''" "digit_char 8 = CHR ''8''"
  "digit_char 9 = CHR ''9''" "digit_char (Suc 0) = CHR ''1''"
  by code_simp+

lemma str_nat_small: "n < 10 \<Longrightarrow> str_nat n = [digit_char n]"
  by (subst str_nat.simps) simp

lemma str_nat_large: "10 \<le> n \<Longrightarrow> str_nat n = str_nat (n div 10) @ [digit_char (n mod 10)]"
  by (subst str_nat.simps) simp

lemma digit_char_plain:
  assumes "d < 10"
  shows "digit_char d \<noteq> CHR ''.'' \<and> digit_char d \<noteq> CHR ''/''"
proof -
  from assms have "d \<in> {0, 1, 2, 3, 4, 5, 6, 7, 8, 9}" by auto
  then show ?thesis by (auto simp: digit_chars)
qed

lemma str_nat_plain: "c \<in> set (str_nat n) \<Longrightarrow> c \<noteq> CHR ''.'' \<and> c \<noteq> CHR ''/''"
proof (induction n rule: str_nat.induct)
  case (1 n)
  show ?case
  proof (cases "n < 10")
    case True
    with "1.prems" have "c = digit_char n" by (simp add: str_nat_small)
    with True show ?thesis by (simp add: digit_char_plain)
  next
    case False
    with "1.prems" have "c \<in> set (str_nat (n div 10)) \<or> c = digit_char (n mod 10)"
      by (auto simp: str_nat_large)
    then show ?thesis
    proof
      assume "c \<in> set (str_nat (n div 10))"
      with False "1.IH" show ?thesis by simp
    next
      assume "c = digit_char (n mod 10)"
      then show ?thesis by (simp add: digit_char_plain)
    qed
  qed
qed

lemma str_nat_nonempty: "str_nat n \<noteq> []"
proof (cases "n < 10")
  case True
  then show ?thesis by (simp add: str_nat_small)
next
  case False
  then have "str_nat n = str_nat (n div 10) @ [digit_char (n mod 10)]"
    by (simp add: str_nat_large)
  then show ?thesis by simp
qed

lemma str_plain: "c \<in> set (str n) \<Longrightarrow> c \<noteq> CHR ''.'' \<and> c \<noteq> CHR ''/''"
proof (cases "n < 0")
  case True
  assume "c \<in> set (str n)"
  with True have "c = CHR ''-'' \<or> c \<in> set (str_nat (nat (- n)))" by (simp add: str_def)
  then show ?thesis using str_nat_plain [of c "nat (- n)"] by auto
next
  case False
  assume "c \<in> set (str n)"
  with False have "c \<in> set (str_nat (nat n))" by (simp add: str_def)
  then show ?thesis by (rule str_nat_plain)
qed

lemma basename_plain:
  assumes "c \<in> set (basename n)"
  shows "c \<noteq> CHR ''.'' \<and> c \<noteq> CHR ''/''"
proof -
  from assms have "c \<in> set (drop (length (str n)) ''00000000'') \<or> c \<in> set (str n)"
    by (simp add: basename_def)
  then show ?thesis
  proof
    assume "c \<in> set (drop (length (str n)) ''00000000'')"
    then have "c \<in> set ''00000000''" by (rule in_set_dropD)
    then show ?thesis by auto
  next
    assume "c \<in> set (str n)"
    then show ?thesis by (rule str_plain)
  qed
qed

lemma str_nonempty: "str n \<noteq> []"
  by (simp add: str_def str_nat_nonempty)

lemma basename_nonempty: "basename n \<noteq> []"
  by (simp add: basename_def str_nonempty)

lemma rfind_from_absent: "c \<notin> set xs \<Longrightarrow> rfind_from c xs i found = found"
  by (induction xs arbitrary: i found) auto

lemma rfind_from_append:
  "rfind_from c (xs @ ys) i found = rfind_from c ys (i + int (length xs)) (rfind_from c xs i found)"
  by (induction xs arbitrary: i found) (auto simp: algebra_simps)

lemma splitext_stem_jpg:
  assumes "stem \<noteq> []" and "CHR ''.'' \<notin> set stem" and "CHR ''/'' \<notin> set stem"
  shows "splitext (stem @ ''.jpg'') = (stem, ''.jpg'')"
proof -
  have sep: "rfind (stem @ ''.jpg'') (CHR ''/'') = - 1"
    using assms(3) by (simp add: rfind_def rfind_from_absent)
  have dot: "rfind (stem @ ''.jpg'') (CHR ''.'') = int (length stem)"
    using assms(2) by (simp add: rfind_def rfind_from_append rfind_from_absent)
  from assms(1) obtain x xs where stem: "stem = x # xs" by (cases stem) auto
  with assms(2) have "x \<noteq> CHR ''.''" by auto
  then have "skip_dots (stem @ ''.jpg'') 0 (length stem)"
    by (subst skip_dots.simps) (simp add: stem)
  with sep dot show ?thesis by (simp add: splitext_def)
qed

lemma lower_jpg: "lower ''.jpg'' = ''.jpg''" by code_simp

lemma filename_of_valid: "is_valid_image_name (filename_of n)"
proof -
  have "CHR ''.'' \<notin> set (basename n)" "CHR ''/'' \<notin> set (basename n)"
    using basename_plain [of _ n] by blast+
  from splitext_stem_jpg [OF basename_nonempty this] show ?thesis
    by (simp add: is_valid_image_name_def filename_of_def lower_jpg valid_images_def)
qed







subsection \<open>Writing a file, showing a frame\<close>

lemma map_of_imwrite_same: "map_of (imwrite name f d) name = Some (ImageData f)"
  by (induction d) auto

lemma map_of_imwrite_other: "other \<noteq> name \<Longrightarrow> map_of (imwrite name f d) other = map_of d other"
  by (induction d) auto

lemma video_loop_shows:
  assumes "400 \<le> width g"
  shows "video_loop (Some g) s = (Inr (), s\<lparr>current_image := Some (displayed g), panel := Some (displayed g)\<rparr>)"
proof -
  have w: "width (cvtColor_BGR2RGB g) = width g"
    by (cases g) (simp_all add: width_def cvtColor_BGR2RGB_def)
  have l: "length (cvtColor_BGR2RGB g) = length g"
    by (simp add: cvtColor_BGR2RGB_def)
  have c: "ImageOps_crop (cvtColor_BGR2RGB g) (200, 0, 200, 0) =
           Inr (map (\<lambda>row. take (width g - 400) (drop 200 row)) (cvtColor_BGR2RGB g))"
    using assms by (simp add: ImageOps_crop_def w l)
  have "ImageOps_mirror (map (\<lambda>row. take (width g - 400) (drop 200 row)) (cvtColor_BGR2RGB g)) = displayed g"
    by (simp add: ImageOps_mirror_def displayed_def cvtColor_BGR2RGB_def)
  with c show ?thesis by (simp add: video_loop_def Let_def)
qed

lemma width_wide: "width frame_wide = 402"
  by (simp add: width_def frame_wide_def)

lemma displayed_wide: "displayed frame_wide = [[(6, 5, 4), (3, 2, 1)]]"
  by (simp add: displayed_def width_wide) (simp add: frame_wide_def)


subsection \<open>Counting the existing images\<close>



text \<open>
  C3. The next number follows the count of the entries, not the largest number in a
  name: when the next number of a directory is \<open>n\<close> and an entry with a valid image
  name is deleted (any entry \<open>get_current_count\<close> counted, so every file
  \<open>save_image\<close> wrote), the next number of the directory after the deletion is
  strictly below \<open>n\<close>.
\<close>

theorem delete_lowers_nextNumber:
  assumes "(name, c) \<in> set d" and "is_valid_image_name name" and "nextNumber d = Inr n"
  shows "\<exists>m. nextNumber (delete_file name d) = Inr m \<and> m < n"
proof -
  let ?v = "\<lambda>(i, c). is_valid_image_name i"
  from assms(3) obtain k where k: "get_current_count d = Inr k" and n: "n = k + 1"
    by (auto simp: nextNumber_def split: sum.splits)
  have all: "\<forall>(i, c) \<in> set d. is_valid_image_name i \<longrightarrow> openable c"
    by (rule get_current_count_returns [OF k])
  then have all': "\<forall>(i, c) \<in> set (delete_file name d). is_valid_image_name i \<longrightarrow> openable c"
    by (auto simp: delete_file_def)
  have kd: "k = int (length (filter ?v d))"
    using get_current_count_all_open [OF all] k by simp
  have "filter ?v (delete_file name d) = filter (\<lambda>(i, c). i \<noteq> name) (filter ?v d)"
    by (induction d) (auto simp: delete_file_def)
  moreover have "length (filter (\<lambda>(i, c). i \<noteq> name) (filter ?v d)) < length (filter ?v d)"
    by (rule length_filter_less [of "(name, c)"]) (use assms(1,2) in auto)
  ultimately have "length (filter ?v (delete_file name d)) < length (filter ?v d)"
    by simp
  with get_current_count_all_open [OF all'] kd n show ?thesis
    by (simp add: nextNumber_def)
qed

theorem delete_lowers_nextNumber_witness:
  "(filename_of 1, ImageData []) \<in> set folder_two \<and> is_valid_image_name (filename_of 1) \<and>
   nextNumber folder_two = Inr 3 \<and>
   (\<exists>m. nextNumber (delete_file (filename_of 1) folder_two) = Inr m \<and> m < 3) \<and>
   nextNumber (delete_file (filename_of 1) folder_two) = Inr 2"
proof -
  have h1: "(filename_of 1, ImageData []) \<in> set folder_two"
    by (simp add: folder_two_def filename_1)
  have h2: "is_valid_image_name (filename_of 1)"
    by (rule filename_of_valid)
  have h3: "nextNumber folder_two = Inr 3"
    by (simp add: nextNumber_def folder_two_def count_2)
  have "delete_file (filename_of 1) folder_two = [(''00000002.jpg'', ImageData [])]"
    by (simp add: delete_file_def folder_two_def filename_1)
  then have r: "nextNumber (delete_file (filename_of 1) folder_two) = Inr 2"
    by (simp add: nextNumber_def get_current_count_def ext_2 valid_images_def)
  from delete_lowers_nextNumber [OF h1 h2 h3] h1 h2 h3 r show ?thesis by simp
qed

text \<open>
  C4, as the code has it. \<^verbatim>\<open>Image.open\<close> is called without a guard, so an entry
  with a valid image name that does not open is not left out of the count: its exception
  leaves \<open>get_current_count\<close>, which returns no count at all.
\<close>

theorem get_current_count_raises_on_unopenable:
  assumes "(i, c) \<in> set d" and "is_valid_image_name i" and "\<not> openable c"
  shows "\<exists>e. get_current_count d = Inl e"
  using assms by (rule get_current_count_unopenable)

theorem get_current_count_raises_on_unopenable_witness:
  "(''00000002.jpg'', OtherData) \<in> set folder_bad \<and> is_valid_image_name ''00000002.jpg'' \<and>
   \<not> openable OtherData \<and> (\<exists>e. get_current_count folder_bad = Inl e)"
proof -
  have h1: "(''00000002.jpg'', OtherData) \<in> set folder_bad"
    by (simp add: folder_bad_def)
  have h2: "is_valid_image_name ''00000002.jpg''"
    by (simp add: is_valid_image_name_def ext_2 valid_images_def)
  have h3: "\<not> openable OtherData"
    by (simp add: openable_def)
  from get_current_count_raises_on_unopenable [OF h1 h2 h3] h1 h2 h3 show ?thesis by simp
qed

text \<open>
  C4, as the claim has it, fails: with one image and one \<^verbatim>\<open>.jpg\<close> entry that is
  not an image, \<open>get_current_count\<close> does not return 1, it raises.
\<close>

theorem unopenable_entry_not_excluded:
  "get_current_count folder_bad = Inl UnidentifiedImageError \<and>
   get_current_count folder_bad \<noteq> Inr 1"
  by (simp add: get_current_count_def folder_bad_def ext_1 ext_2 valid_images_def)

subsection \<open>Saving\<close>

text \<open>
  C5, at a concrete run. The frame is read, \<^verbatim>\<open>cv2.imwrite\<close> cannot write and
  returns false: \<open>save_image\<close> writes no file and still prints
  \<^verbatim>\<open>save successful.\<close>, since \<open>saved\<close> is never looked at.
\<close>

theorem save_image_prints_success_after_failed_write:
  "save_image (Some frame) False session0 =
     (Inr (), session0\<lparr>count := 1,
                        console := [''new save: ./00000001.jpg'', ''save successful.'']\<rparr>)"
proof -
  have c: "get_current_count (files session0) = Inr 0"
    by (simp add: session0_def count_0)
  from save_image_write_failed [OF c, of frame] show ?thesis
    by (simp add: filename_1 path_join_def session0_def)
qed

text \<open>
  C6. When the read of the frame fails, \<open>save_image\<close> leaves the entries of the
  output directory as they were, so no file is new and \<open>get_current_count\<close> gives
  afterwards what it gave before. This holds for every session, also one whose
  directory makes \<open>get_current_count\<close> raise.
\<close>

theorem failed_read_leaves_directory:
  "files (snd (save_image None writable s)) = files s \<and>
   get_current_count (files (snd (save_image None writable s))) = get_current_count (files s)"
proof -
  have "files (snd (save_image None writable s)) = files s"
  proof (cases "get_current_count (files s)")
    case (Inl e)
    then show ?thesis by (simp add: save_image_raises)
  next
    case (Inr n)
    then show ?thesis by (simp add: save_image_read_failed)
  qed
  then show ?thesis by simp
qed

text \<open>
  C7. A save that succeeds stores the frame it has just read, as read: the entry named
  by the new number holds exactly that frame. The image of the session plays no part:
  whatever \<open>current_image\<close> and \<open>panel\<close> hold, the directory after the save is the
  same, and the save does not change what the panel shows. What the panel shows is
  another thing: after \<open>video_loop\<close> on a frame \<open>g\<close> at least 400 pixels wide it is
  \<open>displayed g\<close>, with channels swapped, 200 columns cut on each side, and mirrored.
\<close>

theorem save_image_stores_raw_frame:
  assumes "get_current_count (files s) = Inr n" and "400 \<le> width g"
  shows "map_of (files (snd (save_image (Some frame) True s))) (filename_of (n + 1)) =
           Some (ImageData frame) \<and>
         files (snd (save_image (Some frame) True (s\<lparr>current_image := ci, panel := pn\<rparr>))) =
           files (snd (save_image (Some frame) True s)) \<and>
         panel (snd (save_image (Some frame) True s)) = panel s \<and>
         panel (snd (video_loop (Some g) s)) = Some (displayed g)"
proof -
  from assms(1) have "get_current_count (files (s\<lparr>current_image := ci, panel := pn\<rparr>)) = Inr n"
    by simp
  from save_image_ok [OF this, of frame] save_image_ok [OF assms(1), of frame]
    video_loop_shows [OF assms(2), of s]
  show ?thesis by (simp add: map_of_imwrite_same)
qed

theorem save_image_stores_raw_frame_witness:
  "get_current_count (files session0) = Inr 0 \<and> 400 \<le> width frame_wide \<and>
   map_of (files (snd (save_image (Some frame_wide) True session0))) ''00000001.jpg'' =
     Some (ImageData frame_wide) \<and>
   panel (snd (video_loop (Some frame_wide) session0)) = Some [[(6, 5, 4), (3, 2, 1)]]"
proof -
  have c: "get_current_count (files session0) = Inr 0"
    by (simp add: session0_def count_0)
  have w: "400 \<le> width frame_wide"
    by (simp add: width_wide)
  from save_image_stores_raw_frame [OF c w, of frame_wide] c w show ?thesis
    by (simp add: filename_1 displayed_wide)
qed




text \<open>
  C10. \<open>save_image\<close> assigns \<open>count\<close> before it reads a frame. So when
  \<open>get_current_count\<close> returns \<open>k\<close> for the directory, \<open>count\<close> is \<open>k + 1\<close> after the
  call whatever the read and the write did, and in particular after a failed read,
  where no entry of the directory has changed.
\<close>

theorem save_image_sets_count_before_read:
  assumes "get_current_count (files s) = Inr k"
  shows "count (snd (save_image None writable s)) = k + 1 \<and>
         files (snd (save_image None writable s)) = files s \<and>
         fst (save_image None writable s) = Inr () \<and>
         count (snd (save_image (Some frame) writable s)) = k + 1"
  using assms
  by (cases writable)
    (simp_all add: save_image_read_failed save_image_ok save_image_write_failed)

theorem save_image_sets_count_before_read_witness:
  "get_current_count (files session0) = Inr 0 \<and> count session0 = 7 \<and>
   count (snd (save_image None True session0)) = 1 \<and>
   files (snd (save_image None True session0)) = files session0"
proof -
  have c: "get_current_count (files session0) = Inr 0"
    by (simp add: session0_def count_0)
  from save_image_sets_count_before_read [OF c, of True] c show ?thesis
    by (simp add: session0_def)
qed

end
